theory Spec2Isabelle
  imports Main "HOL-Library.AList" "HOL-Library.Sublist"
begin

section \<open>The port-forward backend of app.py\<close>

text \<open>
  The module keeps one dictionary, \<open>active_forwards\<close>, from session ids to session
  records, guarded by \<open>forward_lock\<close>. Three HTTP handlers (\<open>forward\<close>,
  \<open>stop_forward\<close>, \<open>status\<close>) and one sleeping thread per session act on it, and each
  session owns a \<open>kubectl port-forward\<close> child process.

  The embedding passes the state explicitly. Everything the handlers cannot decide by
  themselves is an input: the interpreter's \<open>hash\<close> and \<open>int\<close>, the identifier drawn by
  \<open>uuid.uuid4()\<close>, and what the child process does after \<open>subprocess.Popen\<close>.

  A handler call is one step of the model. The dictionary is only read and written
  under the lock; \<open>stop_port_forward\<close> and \<open>status\<close> hold the lock for their whole
  body, and \<open>forward\<close> touches the dictionary once, at the insertion, so a call of it
  takes effect at that point. Time is a clock value in seconds that \<open>time.time()\<close>
  reads; it advances by the \<open>time.sleep(1)\<close> of a launch and by the event that moves
  the clock on.
\<close>

subsection \<open>Interpreter and configuration\<close>

text \<open>
  \<open>hash_str\<close> is the built-in \<open>hash\<close> on strings (salted per interpreter process, so any
  function of the string), \<open>int_str\<close> the built-in \<open>int\<close> on a string (\<open>None\<close> where it
  raises \<open>ValueError\<close>), \<open>forward_timeout\<close> the module constant \<open>FORWARD_TIMEOUT\<close>.
  \<open>sleep_limit\<close> is the longest sleep, in seconds, that \<open>time.sleep\<close> carries out on the
  platform: a longer one raises \<open>OverflowError\<close> or \<open>OSError\<close> (the length does not
  fit the platform's clock), as a negative one raises \<open>ValueError\<close>.
\<close>

record runtime =
  hash_str :: "string \<Rightarrow> int"
  int_str :: "string \<Rightarrow> int option"
  forward_timeout :: int
  sleep_limit :: int

text \<open>
  A reading of \<open>int\<close> on ASCII text, used where a concrete interpreter is needed:
  surrounding white space (space, tab, line feed, vertical tab, form feed, carriage
  return) is dropped, then an optional sign, then decimal digits, with single
  underscores allowed between digits.
\<close>

definition is_space :: "char \<Rightarrow> bool" where
  "is_space c = (c \<in> set [CHR '' '', CHR 0x09, CHR 0x0A, CHR 0x0B, CHR 0x0C, CHR 0x0D])"

definition digit_of :: "char \<Rightarrow> nat option" where
  "digit_of c =
     (let n = (of_char c :: nat) in if 48 \<le> n \<and> n \<le> 57 then Some (n - 48) else None)"

fun more_digits :: "nat \<Rightarrow> string \<Rightarrow> nat option" where
  "more_digits acc [] = Some acc"
| "more_digits acc [c] =
     (case digit_of c of None \<Rightarrow> None | Some v \<Rightarrow> Some (10 * acc + v))"
| "more_digits acc (c # d # cs) =
     (if c = CHR ''_''
      then (case digit_of d of None \<Rightarrow> None | Some v \<Rightarrow> more_digits (10 * acc + v) cs)
      else (case digit_of c of None \<Rightarrow> None | Some v \<Rightarrow> more_digits (10 * acc + v) (d # cs)))"

definition py_digits :: "string \<Rightarrow> nat option" where
  "py_digits s =
     (case s of [] \<Rightarrow> None
      | c # cs \<Rightarrow> (case digit_of c of None \<Rightarrow> None | Some v \<Rightarrow> more_digits v cs))"

definition strip :: "string \<Rightarrow> string" where
  "strip s = rev (dropWhile is_space (rev (dropWhile is_space s)))"

definition py_int :: "string \<Rightarrow> int option" where
  "py_int s =
     (case strip s of [] \<Rightarrow> None
      | c # cs \<Rightarrow>
          if c = CHR ''-'' then map_option (\<lambda>n. - int n) (py_digits cs)
          else if c = CHR ''+'' then map_option int (py_digits cs)
          else map_option int (py_digits (c # cs)))"

text \<open>
  A stand-in for the salted string hash, used where a concrete interpreter is needed:
  the sum of the character codes.
\<close>

definition code_sum :: "string \<Rightarrow> int" where
  "code_sum s = int (sum_list (map of_char s))"

definition sample_runtime :: runtime where
  "sample_runtime = \<lparr>hash_str = code_sum, int_str = py_int, forward_timeout = 3600,
                      sleep_limit = 9000000000\<rparr>"

subsection \<open>State\<close>

text \<open>
  A child process, as far as the module observes it: \<open>running\<close> is \<open>poll() is None\<close>,
  \<open>heeds_term\<close> says whether it exits within the five seconds that follow
  \<open>terminate()\<close>, \<open>err_stream\<close> is what it wrote to standard error. A \<open>Popen\<close> handle
  is the index of its process in \<open>procs\<close>.
\<close>

record proc =
  running :: bool
  heeds_term :: bool
  err_stream :: string

datatype signal = SIGTERM | SIGKILL

record session =
  process :: "nat option"
  namespace :: string
  pod :: string
  pod_port :: int
  local_port :: int
  started_at :: int

datatype py_exn = ValueError_int string

datatype log_entry =
    Info_backend_started
  | Warn_no_auth
  | Info_starting string string int int
  | Error_launch string
  | Info_started string int int
  | Info_stopped string
  | Info_expired string
  | Error_forward py_exn

text \<open>
  \<open>timers\<close> holds the sleeping \<open>timeout_handler\<close> threads: the session id each one closes
  over and the clock value at which its \<open>time.sleep(FORWARD_TIMEOUT)\<close> returns.
  \<open>signals\<close> records every \<open>terminate()\<close> and \<open>kill()\<close> sent, \<open>logged\<close> every logger call.
\<close>

record world =
  active_forwards :: "(string \<times> session) list"
  procs :: "proc list"
  signals :: "(nat \<times> signal) list"
  timers :: "(string \<times> int) list"
  clock :: int
  logged :: "log_entry list"

definition init_world :: world where
  "init_world = \<lparr>active_forwards = [], procs = [], signals = [], timers = [], clock = 0,
                  logged = [Info_backend_started]\<rparr>"

definition add_log :: "log_entry \<Rightarrow> world \<Rightarrow> world" where
  "add_log e w = w\<lparr>logged := logged w @ [e]\<rparr>"

text \<open>\<open>process.poll() is None\<close> for the handle \<open>h\<close>.\<close>

definition poll_none :: "world \<Rightarrow> nat \<Rightarrow> bool" where
  "poll_none w h = (h < length (procs w) \<and> running (procs w ! h))"

subsection \<open>Requests and responses\<close>

record request =
  hdr_authorization :: string
  arg_token :: "string option"
  arg_namespace :: "string option"
  arg_pod :: "string option"
  arg_port :: "string option"

text \<open>Python's \<open>not x\<close> for a value that is \<open>None\<close> or a string.\<close>

definition falsy :: "string option \<Rightarrow> bool" where
  "falsy x = (case x of None \<Rightarrow> True | Some s \<Rightarrow> s = [])"

text \<open>The variables handed to \<open>render_template_string(HTML_TEMPLATE, ...)\<close>.\<close>

record page =
  page_pod_name :: string
  page_namespace :: string
  page_port :: int
  page_local_port :: int
  page_status :: string
  page_error :: "string option"
  page_session_id :: string

record status_entry =
  entry_session_id :: string
  entry_namespace :: string
  entry_pod :: string
  entry_pod_port :: int
  entry_local_port :: int
  entry_active :: bool
  entry_started_at :: int

text \<open>
  \<open>Missing_params\<close> is the fixed message of line 202, \<open>Exception_text e\<close> is \<open>str(e)\<close>.
\<close>

datatype err_msg = Missing_params | Exception_text py_exn

datatype body =
    Json_error err_msg
  | Html (the_page: page)
  | Json_stopped
  | Json_status (entries: "status_entry list")

type_synonym response = "body \<times> nat"

text \<open>What the child does once \<open>subprocess.Popen\<close> is called, and within the second after.\<close>

datatype launch =
    Popen_raises string
  | Exits_early string
  | Survives bool

subsection \<open>start_port_forward\<close>

text \<open>
  The command line is logged, the child is started, and a second later it is polled.
  A child that has exited by then has its error stream read and logged, and the
  function returns \<open>None\<close>, as it does when \<open>Popen\<close> itself raises (the error stream
  is a pipe, so the \<open>Unknown error\<close> alternative of line 61 is never taken). Otherwise
  the handle of the running child is returned.
\<close>

definition start_port_forward ::
  "string \<Rightarrow> string \<Rightarrow> int \<Rightarrow> int \<Rightarrow> launch \<Rightarrow> world \<Rightarrow> nat option \<times> world" where
  "start_port_forward ns pod_name pport lport outcome w =
     (let w1 = add_log (Info_starting ns pod_name pport lport) w in
      case outcome of
        Popen_raises msg \<Rightarrow> (None, add_log (Error_launch msg) w1)
      | Exits_early err \<Rightarrow>
          (None,
           add_log (Error_launch err)
             (w1\<lparr>procs := procs w1 @ [\<lparr>running = False, heeds_term = True, err_stream = err\<rparr>],
                 clock := clock w1 + 1\<rparr>))
      | Survives heeds \<Rightarrow>
          (Some (length (procs w1)),
           add_log (Info_started pod_name pport lport)
             (w1\<lparr>procs := procs w1 @ [\<lparr>running = True, heeds_term = heeds, err_stream = []\<rparr>],
                 clock := clock w1 + 1\<rparr>)))"

subsection \<open>stop_port_forward\<close>

text \<open>
  \<open>process.terminate()\<close>, then \<open>process.wait(timeout=5)\<close>, then \<open>process.kill()\<close> when the
  wait timed out.
\<close>

definition terminate :: "nat \<Rightarrow> world \<Rightarrow> world" where
  "terminate h w =
     (let sent = (if heeds_term (procs w ! h) then [(h, SIGTERM)]
                  else [(h, SIGTERM), (h, SIGKILL)])
      in w\<lparr>signals := signals w @ sent,
            procs := (procs w)[h := (procs w ! h)\<lparr>running := False\<rparr>]\<rparr>)"

definition stop_port_forward :: "string \<Rightarrow> world \<Rightarrow> world" where
  "stop_port_forward session_id w =
     (case map_of (active_forwards w) session_id of
        None \<Rightarrow> w
      | Some info \<Rightarrow>
          (let w1 = (case process info of
                       None \<Rightarrow> w
                     | Some h \<Rightarrow> if poll_none w h then terminate h w else w)
           in add_log (Info_stopped session_id)
                (w1\<lparr>active_forwards := AList.delete session_id (active_forwards w1)\<rparr>)))"

subsection \<open>The handlers\<close>

definition error_page :: "string \<Rightarrow> string \<Rightarrow> int \<Rightarrow> int \<Rightarrow> string \<Rightarrow> page" where
  "error_page pod_name ns port lport session_id =
     \<lparr>page_pod_name = pod_name, page_namespace = ns, page_port = port,
      page_local_port = lport, page_status = ''error'',
      page_error = Some ''No se pudo iniciar el port-forward'',
      page_session_id = session_id\<rparr>"

definition success_page :: "string \<Rightarrow> string \<Rightarrow> int \<Rightarrow> int \<Rightarrow> string \<Rightarrow> page" where
  "success_page pod_name ns port lport session_id =
     \<lparr>page_pod_name = pod_name, page_namespace = ns, page_port = port,
      page_local_port = lport, page_status = ''success'', page_error = None,
      page_session_id = session_id\<rparr>"

text \<open>\<open>9000 + (hash(session_id) % 1000)\<close>; Python's \<open>%\<close> and HOL's \<open>mod\<close> both floor.\<close>

definition port_of :: "runtime \<Rightarrow> string \<Rightarrow> int" where
  "port_of rt session_id = 9000 + hash_str rt session_id mod 1000"

text \<open>
  \<open>threading.Thread(target=timeout_handler, daemon=True).start()\<close>: the thread sleeps
  until \<open>clock + FORWARD_TIMEOUT\<close>. When \<open>time.sleep\<close> raises instead (a negative
  length, or one beyond \<open>sleep_limit\<close>), the exception ends the thread at once, before
  its call of \<open>stop_port_forward\<close>: no thread is left for the session.
\<close>

definition sleep_raises :: "runtime \<Rightarrow> int \<Rightarrow> bool" where
  "sleep_raises rt n = (n < 0 \<or> sleep_limit rt < n)"

definition spawn_timeout :: "runtime \<Rightarrow> string \<Rightarrow> world \<Rightarrow> world" where
  "spawn_timeout rt session_id w =
     (if sleep_raises rt (forward_timeout rt) then w
      else w\<lparr>timers := timers w @ [(session_id, clock w + forward_timeout rt)]\<rparr>)"

text \<open>\<open>int(request.args.get('port', 8080))\<close>.\<close>

definition read_port :: "runtime \<Rightarrow> request \<Rightarrow> py_exn + int" where
  "read_port rt req =
     (case arg_port req of
        None \<Rightarrow> Inr 8080
      | Some p \<Rightarrow> (case int_str rt p of None \<Rightarrow> Inl (ValueError_int p) | Some n \<Rightarrow> Inr n))"

definition forward :: "runtime \<Rightarrow> request \<Rightarrow> string \<Rightarrow> launch \<Rightarrow> world \<Rightarrow> response \<times> world" where
  "forward rt req session_id outcome w =
     (let w0 = (if hdr_authorization req = [] \<and> falsy (arg_token req)
                then add_log Warn_no_auth w else w)
      in case read_port rt req of
           Inl e \<Rightarrow> ((Json_error (Exception_text e), 500), add_log (Error_forward e) w0)
         | Inr port \<Rightarrow>
             if falsy (arg_namespace req) \<or> falsy (arg_pod req)
             then ((Json_error Missing_params, 400), w0)
             else
               (let ns = the (arg_namespace req);
                    pod_name = the (arg_pod req);
                    lport = port_of rt session_id
                in case start_port_forward ns pod_name port lport outcome w0 of
                     (None, w1) \<Rightarrow>
                       ((Html (error_page pod_name ns port lport session_id), 500), w1)
                   | (Some h, w1) \<Rightarrow>
                       (let w2 = w1\<lparr>active_forwards :=
                                      AList.update session_id
                                        \<lparr>process = Some h, namespace = ns, pod = pod_name,
                                         pod_port = port, local_port = lport,
                                         started_at = clock w1\<rparr>
                                        (active_forwards w1)\<rparr>
                        in ((Html (success_page pod_name ns port lport session_id), 200),
                            spawn_timeout rt session_id w2))))"

definition stop_forward :: "string \<Rightarrow> world \<Rightarrow> response \<times> world" where
  "stop_forward session_id w = ((Json_stopped, 200), stop_port_forward session_id w)"

definition status_entry_of :: "world \<Rightarrow> string \<times> session \<Rightarrow> status_entry" where
  "status_entry_of w p =
     \<lparr>entry_session_id = fst p, entry_namespace = namespace (snd p), entry_pod = pod (snd p),
      entry_pod_port = pod_port (snd p), entry_local_port = local_port (snd p),
      entry_active = (case process (snd p) of None \<Rightarrow> False | Some h \<Rightarrow> poll_none w h),
      entry_started_at = started_at (snd p)\<rparr>"

definition status :: "world \<Rightarrow> response \<times> world" where
  "status w = ((Json_status (map (status_entry_of w) (active_forwards w)), 200), w)"

subsection \<open>The timeout thread, the clock and the processes\<close>

text \<open>What \<open>timeout_handler\<close> does once its sleep has returned.\<close>

definition timeout_handler :: "string \<Rightarrow> world \<Rightarrow> world" where
  "timeout_handler session_id w = add_log (Info_expired session_id) (stop_port_forward session_id w)"

definition due :: "int \<Rightarrow> string \<times> int \<Rightarrow> bool" where
  "due c p = (snd p \<le> c)"

text \<open>
  The clock moves on to \<open>t\<close> (never backwards); every thread whose sleep has ended by
  then runs, in the order the threads were started, and is gone afterwards.
\<close>

definition advance :: "int \<Rightarrow> world \<Rightarrow> world" where
  "advance t w =
     (let c = max (clock w) t
      in fold timeout_handler (map fst (filter (due c) (timers w)))
           (w\<lparr>clock := c, timers := filter (Not \<circ> due c) (timers w)\<rparr>))"

text \<open>A child process exits by itself, or is killed from outside the module.\<close>

definition proc_exit :: "nat \<Rightarrow> world \<Rightarrow> world" where
  "proc_exit h w =
     (if h < length (procs w)
      then w\<lparr>procs := (procs w)[h := (procs w ! h)\<lparr>running := False\<rparr>]\<rparr>
      else w)"

datatype event =
    Ev_forward request string launch
  | Ev_stop string
  | Ev_status
  | Ev_advance int
  | Ev_exit nat

fun step :: "runtime \<Rightarrow> world \<Rightarrow> event \<Rightarrow> world" where
  "step rt w (Ev_forward req session_id outcome) = snd (forward rt req session_id outcome w)"
| "step rt w (Ev_stop session_id) = snd (stop_forward session_id w)"
| "step rt w Ev_status = snd (status w)"
| "step rt w (Ev_advance t) = advance t w"
| "step rt w (Ev_exit h) = proc_exit h w"

definition run :: "runtime \<Rightarrow> world \<Rightarrow> event list \<Rightarrow> world" where
  "run rt w evs = foldl (step rt) w evs"

text \<open>The local ports of the sessions in the table.\<close>

definition held_ports :: "world \<Rightarrow> int list" where
  "held_ports w = map (local_port \<circ> snd) (active_forwards w)"

definition session_ids :: "world \<Rightarrow> string list" where
  "session_ids w = map fst (active_forwards w)"

subsection \<open>Vocabulary of the properties\<close>

text \<open>
  The strings the template substitutes into the page besides the two port numbers
  (which it prints in decimal): the pod name, the namespace and, when the status is
  \<open>error\<close>, the error message. The template does not use \<open>session_id\<close>.
\<close>

definition page_texts :: "page \<Rightarrow> string list" where
  "page_texts pg =
     [page_pod_name pg, page_namespace pg] @
     (if page_status pg = ''error''
      then (case page_error pg of None \<Rightarrow> [] | Some e \<Rightarrow> [e]) else [])"

text \<open>An event that neither stops the session \<open>sid\<close> nor starts a session under its id.\<close>

fun foreign :: "string \<Rightarrow> event \<Rightarrow> bool" where
  "foreign sid (Ev_forward req k outcome) = (k \<noteq> sid)"
| "foreign sid (Ev_stop k) = (k \<noteq> sid)"
| "foreign sid Ev_status = True"
| "foreign sid (Ev_advance t) = True"
| "foreign sid (Ev_exit h) = True"

text \<open>How often the expiry of \<open>sid\<close> has run, and the threads still asleep for it.\<close>

definition expiries :: "string \<Rightarrow> world \<Rightarrow> nat" where
  "expiries sid w = count_list (logged w) (Info_expired sid)"

definition sleeping :: "string \<Rightarrow> world \<Rightarrow> (string \<times> int) list" where
  "sleeping sid w = filter (\<lambda>p. fst p = sid) (timers w)"

text \<open>The \<open>terminate()\<close> calls made on the handle \<open>h\<close> so far.\<close>

definition terminations :: "nat \<Rightarrow> world \<Rightarrow> nat" where
  "terminations h w = count_list (signals w) (h, SIGTERM)"

text \<open>
  The two situations of a started session \<open>sid\<close> with process handle \<open>h\<close>, where \<open>c\<close>
  counts the expiries logged for \<open>sid\<close> before the start: the session is in the table
  and its expiry has not run, or its expiry has run once, it has left the table and
  its process is not running.
\<close>

definition session_live :: "string \<Rightarrow> nat \<Rightarrow> nat \<Rightarrow> world \<Rightarrow> bool" where
  "session_live sid h c w =
     (map_option process (map_of (active_forwards w) sid) = Some (Some h) \<and>
      expiries sid w = c \<and> h < length (procs w))"

definition session_gone :: "string \<Rightarrow> nat \<Rightarrow> nat \<Rightarrow> world \<Rightarrow> bool" where
  "session_gone sid h c w =
     (map_of (active_forwards w) sid = None \<and> expiries sid w = Suc c \<and>
      h < length (procs w) \<and> \<not> running (procs w ! h))"

subsection \<open>Sample inputs\<close>

definition demo_request :: request where
  "demo_request = \<lparr>hdr_authorization = [], arg_token = None, arg_namespace = Some ''demo'',
                    arg_pod = Some ''web-0'', arg_port = None\<rparr>"

definition sid_a :: string where
  "sid_a = ''3f2b8c1e-7a4d-4e2a-9b1c-5d6e7f8091a2''"

definition sid_b :: string where
  "sid_b = ''3f2b8c1e-7a4d-4e2a-9b1c-5d6e7f80912a''"

definition sid_c :: string where
  "sid_c = ''3f2b8c1e-7a4d-4e2a-9b1c-5d6e7f8091a3''"

section \<open>Properties\<close>

subsection \<open>Basic facts\<close>

lemma port_of_range: "9000 \<le> port_of rt sid \<and> port_of rt sid \<le> 9999"
  by (simp add: port_of_def)

lemma add_log_fields [simp]:
  "logged (add_log e w) = logged w @ [e]"
  "active_forwards (add_log e w) = active_forwards w"
  "procs (add_log e w) = procs w"
  "signals (add_log e w) = signals w"
  "timers (add_log e w) = timers w"
  "clock (add_log e w) = clock w"
  by (simp_all add: add_log_def)

lemma start_port_forward_frame [simp]:
  "active_forwards (snd (start_port_forward ns p pp lp outcome w)) = active_forwards w"
  "timers (snd (start_port_forward ns p pp lp outcome w)) = timers w"
  "signals (snd (start_port_forward ns p pp lp outcome w)) = signals w"
  by (cases outcome; simp add: start_port_forward_def Let_def)+

lemma start_port_forward_handle:
  "fst (start_port_forward ns p pp lp outcome w) =
     (case outcome of Survives heeds \<Rightarrow> Some (length (procs w)) | _ \<Rightarrow> None)"
  by (cases outcome) (simp_all add: start_port_forward_def Let_def)

lemma forward_launched:
  assumes "read_port rt req = Inr port" and "\<not> falsy (arg_namespace req)"
    and "\<not> falsy (arg_pod req)"
  shows "fst (forward rt req sid (Survives heeds) w) =
           (Html (success_page (the (arg_pod req)) (the (arg_namespace req)) port
                    (port_of rt sid) sid), 200)"
    and "active_forwards (snd (forward rt req sid (Survives heeds) w)) =
           AList.update sid
             \<lparr>process = Some (length (procs w)), namespace = the (arg_namespace req),
              pod = the (arg_pod req), pod_port = port, local_port = port_of rt sid,
              started_at = clock w + 1\<rparr>
             (active_forwards w)"
    and "procs (snd (forward rt req sid (Survives heeds) w)) =
           procs w @ [\<lparr>running = True, heeds_term = heeds, err_stream = []\<rparr>]"
    and "timers (snd (forward rt req sid (Survives heeds) w)) =
           (if sleep_raises rt (forward_timeout rt) then timers w
            else timers w @ [(sid, clock w + 1 + forward_timeout rt)])"
    and "signals (snd (forward rt req sid (Survives heeds) w)) = signals w"
    and "clock (snd (forward rt req sid (Survives heeds) w)) = clock w + 1"
    and "logged (snd (forward rt req sid (Survives heeds) w)) =
           logged w @
           (if hdr_authorization req = [] \<and> falsy (arg_token req) then [Warn_no_auth] else []) @
           [Info_starting (the (arg_namespace req)) (the (arg_pod req)) port (port_of rt sid),
            Info_started (the (arg_pod req)) port (port_of rt sid)]"
  using assms
  by (simp_all add: forward_def Let_def start_port_forward_def spawn_timeout_def)

lemma forward_launch_failed:
  assumes "read_port rt req = Inr port" and "\<not> falsy (arg_namespace req)"
    and "\<not> falsy (arg_pod req)" and "outcome = Popen_raises m \<or> outcome = Exits_early d"
  shows "forward rt req sid outcome w =
     (let w0 = (if hdr_authorization req = [] \<and> falsy (arg_token req)
                then add_log Warn_no_auth w else w);
          ns = the (arg_namespace req);
          pod_name = the (arg_pod req);
          lport = port_of rt sid
      in ((Html (error_page pod_name ns port lport sid), 500),
          snd (start_port_forward ns pod_name port lport outcome w0)))"
  using assms by (auto simp: forward_def Let_def start_port_forward_def)

lemma forward_200D:
  assumes "forward rt req sid outcome w = ((b, 200), w')"
  shows "\<exists>port heeds. read_port rt req = Inr port \<and> \<not> falsy (arg_namespace req) \<and>
           \<not> falsy (arg_pod req) \<and> outcome = Survives heeds"
  using assms
  by (cases outcome)
     (auto simp: forward_def Let_def start_port_forward_def split: sum.splits if_splits)

lemma demo_request_ok:
  "read_port sample_runtime demo_request = Inr 8080"
  "\<not> falsy (arg_namespace demo_request)" "\<not> falsy (arg_pod demo_request)"
  "the (arg_namespace demo_request) = ''demo''" "the (arg_pod demo_request) = ''web-0''"
  by (simp_all add: read_port_def demo_request_def falsy_def)

lemma sample_ports:
  "port_of sample_runtime sid_a = 9515" "port_of sample_runtime sid_b = 9515"
  "port_of sample_runtime sid_c = 9516"
  by (simp_all add: port_of_def sample_runtime_def code_sum_def sid_a_def sid_b_def sid_c_def)

subsection \<open>The local port of a started session\<close>

text \<open>
  Claim C8. Every successful start (a \<open>forward\<close> call answered with status 200) stores
  its session under the drawn id with a local port between 9000 and 9999 inclusive, and
  the page it returns shows that port.
\<close>

theorem start_port_in_pool:
  assumes "forward rt req sid outcome w = ((b, 200), w')"
  shows "\<exists>s pg. map_of (active_forwards w') sid = Some s \<and> b = Html pg \<and>
           page_local_port pg = local_port s \<and> 9000 \<le> local_port s \<and> local_port s \<le> 9999"
proof -
  from forward_200D[OF assms] obtain port heeds where
    ok: "read_port rt req = Inr port" "\<not> falsy (arg_namespace req)" "\<not> falsy (arg_pod req)"
    and out: "outcome = Survives heeds"
    by blast
  from assms have "b = fst (fst (forward rt req sid (Survives heeds) w))"
    and "w' = snd (forward rt req sid (Survives heeds) w)"
    by (simp_all add: out)
  then show ?thesis
    using port_of_range[of rt sid]
    by (simp add: forward_launched[OF ok] success_page_def AList.update_conv')
qed

theorem start_port_in_pool_witness:
  "snd (fst (forward sample_runtime demo_request sid_a (Survives True) init_world)) = 200 \<and>
   (\<exists>s pg. map_of (active_forwards
               (snd (forward sample_runtime demo_request sid_a (Survives True) init_world)))
              sid_a = Some s \<and>
           fst (fst (forward sample_runtime demo_request sid_a (Survives True) init_world)) = Html pg \<and>
           page_local_port pg = local_port s \<and> 9000 \<le> local_port s \<and> local_port s \<le> 9999)"
proof -
  let ?r = "forward sample_runtime demo_request sid_a (Survives True) init_world"
  have c: "snd (fst ?r) = 200"
    by (simp add: forward_launched[OF demo_request_ok(1-3)])
  then have "?r = ((fst (fst ?r), 200), snd ?r)"
    by (metis prod.collapse)
  from start_port_in_pool[OF this] c show ?thesis
    by blast
qed

subsection \<open>A launch that fails\<close>

text \<open>
  Claim C3. When the launch fails after the local port has been chosen (\<open>Popen\<close> raises,
  or the child has exited when it is polled a second later), \<open>forward\<close> answers with
  status 500, adds no session to the table, starts no timeout thread, sends no
  signal and leaves no child running; the ports held by the table are the ones held
  before.
\<close>

theorem launch_failure_holds_nothing:
  assumes "read_port rt req = Inr port" and "\<not> falsy (arg_namespace req)"
    and "\<not> falsy (arg_pod req)" and "outcome = Popen_raises m \<or> outcome = Exits_early d"
  shows "snd (fst (forward rt req sid outcome w)) = 500 \<and>
         active_forwards (snd (forward rt req sid outcome w)) = active_forwards w \<and>
         held_ports (snd (forward rt req sid outcome w)) = held_ports w \<and>
         timers (snd (forward rt req sid outcome w)) = timers w \<and>
         signals (snd (forward rt req sid outcome w)) = signals w \<and>
         (\<forall>h. poll_none (snd (forward rt req sid outcome w)) h = poll_none w h)"
proof -
  have "poll_none (snd (forward rt req sid outcome w)) h = poll_none w h" for h
    using assms(4)
    by (auto simp: forward_launch_failed[OF assms] Let_def start_port_forward_def
        poll_none_def nth_append less_Suc_eq split: if_splits)
  then show ?thesis
    by (simp add: forward_launch_failed[OF assms] Let_def held_ports_def)
qed

theorem launch_failure_holds_nothing_witness:
  "snd (fst (forward sample_runtime demo_request sid_a (Exits_early ''pod not found'') init_world))
     = 500 \<and>
   active_forwards (snd (forward sample_runtime demo_request sid_a (Exits_early ''pod not found'')
     init_world)) = [] \<and>
   held_ports (snd (forward sample_runtime demo_request sid_a (Exits_early ''pod not found'')
     init_world)) = []"
  using launch_failure_holds_nothing[OF demo_request_ok(1-3), of "Exits_early ''pod not found''"
      "[]" "''pod not found''" sid_a init_world]
  by (simp add: init_world_def held_ports_def)

text \<open>
  Claim C2, as stated: when the child exits within the observation window with a
  diagnostic on its error stream, the error that \<open>forward\<close> returns carries that
  diagnostic. It does not: \<open>start_port_forward\<close> writes the diagnostic to the log and
  returns \<open>None\<close>, and the page shows a fixed message. Here the child exits with
  \<open>pod not found\<close>.
\<close>

theorem launch_diagnostic_counterexample:
  "fst (forward sample_runtime demo_request sid_a (Exits_early ''pod not found'') init_world) =
     (Html (error_page ''web-0'' ''demo'' 8080 9515 sid_a), 500) \<and>
   page_texts (error_page ''web-0'' ''demo'' 8080 9515 sid_a) =
     [''web-0'', ''demo'', ''No se pudo iniciar el port-forward''] \<and>
   \<not> list_ex (sublist ''pod not found'')
       (page_texts (error_page ''web-0'' ''demo'' 8080 9515 sid_a))"
proof -
  have "\<not> sublist ''pod not found'' ''web-0''" "\<not> sublist ''pod not found'' ''demo''"
    "\<not> sublist ''pod not found'' ''No se pudo iniciar el port-forward''"
    by code_simp+
  then show ?thesis
    by (simp add: forward_launch_failed[OF demo_request_ok(1-3)] Let_def demo_request_ok
        sample_ports page_texts_def error_page_def)
qed

text \<open>
  Claim C2, amended: when the child exits within the observation window with a
  diagnostic on its error stream, \<open>forward\<close> answers with status 500 and a page whose
  error message is the fixed text \<open>No se pudo iniciar el port-forward\<close>; the diagnostic
  is the last entry written to the log.
\<close>

theorem launch_diagnostic_logged:
  assumes "read_port rt req = Inr port" and "\<not> falsy (arg_namespace req)"
    and "\<not> falsy (arg_pod req)"
  shows "fst (forward rt req sid (Exits_early d) w) =
           (Html (error_page (the (arg_pod req)) (the (arg_namespace req)) port
                    (port_of rt sid) sid), 500) \<and>
         page_error (error_page (the (arg_pod req)) (the (arg_namespace req)) port
                    (port_of rt sid) sid) = Some ''No se pudo iniciar el port-forward'' \<and>
         last (logged (snd (forward rt req sid (Exits_early d) w))) = Error_launch d"
  by (simp add: forward_launch_failed[OF assms, of "Exits_early d" "[]" d] Let_def
      start_port_forward_def error_page_def)

theorem launch_diagnostic_logged_witness:
  "fst (forward sample_runtime demo_request sid_a (Exits_early ''pod not found'') init_world) =
     (Html (error_page ''web-0'' ''demo'' 8080 9515 sid_a), 500) \<and>
   last (logged (snd (forward sample_runtime demo_request sid_a (Exits_early ''pod not found'')
     init_world))) = Error_launch ''pod not found''"
  using launch_diagnostic_logged[OF demo_request_ok(1-3), of sid_a "''pod not found''" init_world]
  by (simp add: demo_request_ok sample_ports)

subsection \<open>Stopping an unknown session\<close>

text \<open>
  Claim C4, as stated: \<open>stop\<close> on a session id that is not in the table reports
  not-found rather than a successful stop. It does not: \<open>stop_forward\<close> answers
  \<open>{"status": "stopped"}\<close> with status 200 whatever \<open>stop_port_forward\<close> found. Here
  the table is empty.
\<close>

theorem stop_unknown_counterexample:
  "map_of (active_forwards init_world) sid_a = None \<and>
   fst (stop_forward sid_a init_world) = (Json_stopped, 200)"
  by (simp add: init_world_def stop_forward_def)

text \<open>
  Claim C4, amended: \<open>stop\<close> on a session id that is not in the table changes nothing
  (no signal, no removal, no log entry) and answers \<open>{"status": "stopped"}\<close> with
  status 200, the answer a stop of a registered session gets.
\<close>

theorem stop_unknown_is_silent:
  assumes "map_of (active_forwards w) sid = None"
  shows "stop_forward sid w = ((Json_stopped, 200), w) \<and>
         fst (stop_forward sid w) = fst (stop_forward sid' w')"
  using assms by (simp add: stop_forward_def stop_port_forward_def)

theorem stop_unknown_is_silent_witness:
  "map_of (active_forwards init_world) sid_a = None \<and>
   stop_forward sid_a init_world = ((Json_stopped, 200), init_world)"
proof -
  have h: "map_of (active_forwards init_world) sid_a = None"
    by (simp add: init_world_def)
  from stop_unknown_is_silent[OF h] h show ?thesis
    by blast
qed

subsection \<open>A request without namespace or pod\<close>

text \<open>
  Claim C10, as stated: a start request without the namespace or the pod parameter is
  answered with status 400. Not always: the port parameter is converted by \<open>int\<close>
  before the two are looked at, so a request whose port is not a number is answered
  with status 500 and the text of the \<open>ValueError\<close>. Here the request has no namespace
  and the port \<open>abc\<close>.
\<close>

theorem missing_params_counterexample:
  "falsy (arg_namespace (demo_request\<lparr>arg_namespace := None, arg_port := Some ''abc''\<rparr>)) \<and>
   fst (forward sample_runtime (demo_request\<lparr>arg_namespace := None, arg_port := Some ''abc''\<rparr>)
          sid_a (Survives True) init_world) =
     (Json_error (Exception_text (ValueError_int ''abc'')), 500)"
proof -
  have "py_int ''abc'' = None"
    by (simp add: py_int_def strip_def is_space_def py_digits_def digit_of_def)
  then show ?thesis
    by (simp add: forward_def read_port_def demo_request_def sample_runtime_def falsy_def)
qed

text \<open>
  Claim C10, amended: a start request without the namespace or the pod parameter (or
  with an empty one) launches no process, sends no signal, starts no timeout thread and
  leaves the table as it was; it is answered with status 400 when its port parameter
  is absent or is accepted by \<open>int\<close>, and with status 500 otherwise.
\<close>

theorem missing_params_rejected:
  assumes "falsy (arg_namespace req) \<or> falsy (arg_pod req)"
  shows "active_forwards (snd (forward rt req sid outcome w)) = active_forwards w \<and>
         procs (snd (forward rt req sid outcome w)) = procs w \<and>
         signals (snd (forward rt req sid outcome w)) = signals w \<and>
         timers (snd (forward rt req sid outcome w)) = timers w \<and>
         fst (forward rt req sid outcome w) =
           (case read_port rt req of
              Inr port \<Rightarrow> (Json_error Missing_params, 400)
            | Inl e \<Rightarrow> (Json_error (Exception_text e), 500))"
  using assms by (auto simp: forward_def Let_def split: sum.splits)

theorem missing_params_rejected_witness:
  "falsy (arg_namespace (demo_request\<lparr>arg_namespace := None\<rparr>)) \<and>
   fst (forward sample_runtime (demo_request\<lparr>arg_namespace := None\<rparr>) sid_a (Survives True)
          init_world) = (Json_error Missing_params, 400) \<and>
   procs (snd (forward sample_runtime (demo_request\<lparr>arg_namespace := None\<rparr>) sid_a
          (Survives True) init_world)) = [] \<and>
   active_forwards (snd (forward sample_runtime (demo_request\<lparr>arg_namespace := None\<rparr>) sid_a
          (Survives True) init_world)) = []"
proof -
  have h: "falsy (arg_namespace (demo_request\<lparr>arg_namespace := None\<rparr>)) \<or>
           falsy (arg_pod (demo_request\<lparr>arg_namespace := None\<rparr>))"
    by (simp add: falsy_def)
  have p: "read_port sample_runtime (demo_request\<lparr>arg_namespace := None\<rparr>) = Inr 8080"
    by (simp add: read_port_def demo_request_def)
  from missing_params_rejected[OF h, of sample_runtime sid_a "Survives True" init_world]
  show ?thesis
    by (simp add: p falsy_def init_world_def)
qed

subsection \<open>What the table holds\<close>

lemma set_update_subset: "set (AList.update k v al) \<subseteq> insert (k, v) (set al)"
  by (induction al) auto

lemma set_delete_subset: "set (AList.delete k al) \<subseteq> set al"
  by (auto simp: AList.delete_eq)

lemma map_of_None_iff: "map_of al k = None \<longleftrightarrow> k \<notin> fst ` set al"
  by (simp add: map_of_eq_None_iff)

text \<open>
  Claim C9. A session record that \<open>forward\<close> adds to the table is stored under the id
  drawn for the call and holds a process handle, and that handle is the one of a child
  that was running when it was polled: the branch for a failed launch returns before
  the insertion.
\<close>

theorem inserted_session_has_process:
  assumes "(k, s) \<in> set (active_forwards (snd (forward rt req sid outcome w)))"
    and "(k, s) \<notin> set (active_forwards w)"
  shows "k = sid \<and> (\<exists>h. process s = Some h \<and> poll_none (snd (forward rt req sid outcome w)) h)"
proof (cases "\<exists>port heeds. read_port rt req = Inr port \<and> \<not> falsy (arg_namespace req) \<and>
    \<not> falsy (arg_pod req) \<and> outcome = Survives heeds")
  case True
  then obtain port heeds where
    ok: "read_port rt req = Inr port" "\<not> falsy (arg_namespace req)" "\<not> falsy (arg_pod req)"
    and out: "outcome = Survives heeds"
    by blast
  let ?v = "\<lparr>process = Some (length (procs w)), namespace = the (arg_namespace req),
             pod = the (arg_pod req), pod_port = port, local_port = port_of rt sid,
             started_at = clock w + 1\<rparr>"
  from assms(1) have "(k, s) \<in> set (AList.update sid ?v (active_forwards w))"
    by (simp add: out forward_launched[OF ok])
  with assms(2) set_update_subset[of sid ?v "active_forwards w"] have ks: "k = sid" "s = ?v"
    by auto
  have "poll_none (snd (forward rt req sid outcome w)) (length (procs w))"
    by (simp add: out forward_launched[OF ok] poll_none_def)
  with ks show ?thesis
    by simp
next
  case False
  then have "active_forwards (snd (forward rt req sid outcome w)) = active_forwards w"
    by (cases outcome)
       (auto simp: forward_def Let_def start_port_forward_def split: sum.splits)
  with assms show ?thesis
    by simp
qed

theorem inserted_session_has_process_witness:
  "(sid_a, \<lparr>process = Some 0, namespace = ''demo'', pod = ''web-0'', pod_port = 8080,
            local_port = 9515, started_at = 1\<rparr>)
     \<in> set (active_forwards (snd (forward sample_runtime demo_request sid_a (Survives True)
              init_world))) \<and>
   poll_none (snd (forward sample_runtime demo_request sid_a (Survives True) init_world)) 0"
proof -
  let ?s = "\<lparr>process = Some 0, namespace = ''demo'', pod = ''web-0'', pod_port = 8080,
             local_port = 9515, started_at = 1\<rparr>"
  have a: "(sid_a, ?s) \<in> set (active_forwards (snd (forward sample_runtime demo_request sid_a
      (Survives True) init_world)))"
    by (simp add: forward_launched[OF demo_request_ok(1-3)] demo_request_ok sample_ports
        init_world_def)
  have b: "(sid_a, ?s) \<notin> set (active_forwards init_world)"
    by (simp add: init_world_def)
  from inserted_session_has_process[OF a b] show ?thesis
    using a by simp
qed

subsection \<open>The status listing\<close>

text \<open>
  Claim C6. \<open>status\<close> lists the sessions of the table in order, and the \<open>active\<close> flag of
  each entry is the result of polling the session's process at that moment: it is true
  exactly when the session has a handle whose process is running. So once the process
  of a session has exited outside the module, the entry of that session is reported
  with \<open>active\<close> false (the session stays in the table).
\<close>

theorem status_polls_each_process:
  assumes "i < length (active_forwards w)"
  shows "length (entries (fst (fst (status w)))) = length (active_forwards w) \<and>
         entry_session_id (entries (fst (fst (status w))) ! i) = fst (active_forwards w ! i) \<and>
         entry_active (entries (fst (fst (status w))) ! i) =
           (\<exists>h. process (snd (active_forwards w ! i)) = Some h \<and> poll_none w h) \<and>
         (\<forall>h. process (snd (active_forwards w ! i)) = Some h \<longrightarrow>
            entry_session_id (entries (fst (fst (status (proc_exit h w)))) ! i) =
              fst (active_forwards w ! i) \<and>
            \<not> entry_active (entries (fst (fst (status (proc_exit h w)))) ! i))"
  using assms
  by (auto simp: status_def status_entry_of_def proc_exit_def poll_none_def
      split: option.splits)

theorem status_polls_each_process_witness:
  "entry_session_id (entries (fst (fst (status
      (snd (forward sample_runtime demo_request sid_a (Survives True) init_world))))) ! 0) = sid_a \<and>
   entry_active (entries (fst (fst (status
      (snd (forward sample_runtime demo_request sid_a (Survives True) init_world))))) ! 0) \<and>
   \<not> entry_active (entries (fst (fst (status (proc_exit 0
      (snd (forward sample_runtime demo_request sid_a (Survives True) init_world)))))) ! 0)"
proof -
  let ?w = "snd (forward sample_runtime demo_request sid_a (Survives True) init_world)"
  have af: "active_forwards ?w =
      [(sid_a, \<lparr>process = Some 0, namespace = ''demo'', pod = ''web-0'', pod_port = 8080,
                local_port = 9515, started_at = 1\<rparr>)]"
    and pr: "procs ?w = [\<lparr>running = True, heeds_term = True, err_stream = []\<rparr>]"
    by (simp_all add: forward_launched[OF demo_request_ok(1-3)] demo_request_ok
        sample_ports init_world_def)
  have i: "0 < length (active_forwards ?w)"
    by (simp add: af)
  from status_polls_each_process[OF i] show ?thesis
    by (simp add: af poll_none_def pr)
qed

subsection \<open>Stopping twice\<close>

text \<open>
  Claim C5. For a session in the table, two calls of \<open>stop\<close> in a row both answer
  \<open>stopped\<close> with status 200. The first removes the session and writes one log entry;
  it calls \<open>terminate()\<close> once when the process is running (followed by \<open>kill()\<close> when
  the process has not exited five seconds later) and sends nothing when the process
  has already exited, which is no error. Afterwards the process is not running. The
  second call finds the id absent and changes nothing.
\<close>

theorem stop_twice:
  assumes "map_of (active_forwards w) sid = Some info"
  shows "fst (stop_forward sid w) = (Json_stopped, 200) \<and>
         fst (stop_forward sid (snd (stop_forward sid w))) = (Json_stopped, 200) \<and>
         active_forwards (snd (stop_forward sid w)) = AList.delete sid (active_forwards w) \<and>
         map_of (active_forwards (snd (stop_forward sid w))) sid = None \<and>
         logged (snd (stop_forward sid w)) = logged w @ [Info_stopped sid] \<and>
         signals (snd (stop_forward sid w)) = signals w @
           (case process info of
              None \<Rightarrow> []
            | Some h \<Rightarrow>
                if poll_none w h
                then (if heeds_term (procs w ! h) then [(h, SIGTERM)]
                      else [(h, SIGTERM), (h, SIGKILL)])
                else []) \<and>
         (case process info of
            None \<Rightarrow> procs (snd (stop_forward sid w)) = procs w
          | Some h \<Rightarrow>
              \<not> poll_none (snd (stop_forward sid w)) h \<and>
              terminations h (snd (stop_forward sid w)) =
                terminations h w + (if poll_none w h then 1 else 0) \<and>
              (poll_none w h \<or> procs (snd (stop_forward sid w)) = procs w)) \<and>
         snd (stop_forward sid (snd (stop_forward sid w))) = snd (stop_forward sid w)"
proof -
  let ?w1 = "snd (stop_forward sid w)"
  have gone: "map_of (active_forwards ?w1) sid = None"
    using assms
    by (auto simp: stop_forward_def stop_port_forward_def Let_def terminate_def
        AList.delete_conv' split: option.splits)
  then have again: "stop_forward sid ?w1 = ((Json_stopped, 200), ?w1)"
    by (simp add: stop_forward_def stop_port_forward_def)
  have first: "fst (stop_forward sid w) = (Json_stopped, 200)"
    by (simp add: stop_forward_def)
  have table: "active_forwards ?w1 = AList.delete sid (active_forwards w)"
    and lg: "logged ?w1 = logged w @ [Info_stopped sid]"
    using assms
    by (auto simp: stop_forward_def stop_port_forward_def Let_def terminate_def
        split: option.splits)
  have sg: "signals ?w1 = signals w @
           (case process info of
              None \<Rightarrow> []
            | Some h \<Rightarrow>
                if poll_none w h
                then (if heeds_term (procs w ! h) then [(h, SIGTERM)]
                      else [(h, SIGTERM), (h, SIGKILL)])
                else [])"
    using assms
    by (auto simp: stop_forward_def stop_port_forward_def Let_def terminate_def
        split: option.splits)
  have pr: "(case process info of
            None \<Rightarrow> procs ?w1 = procs w
          | Some h \<Rightarrow>
              \<not> poll_none ?w1 h \<and>
              terminations h ?w1 = terminations h w + (if poll_none w h then 1 else 0) \<and>
              (poll_none w h \<or> procs ?w1 = procs w))"
    using assms
    by (auto simp: stop_forward_def stop_port_forward_def Let_def terminate_def poll_none_def
        terminations_def split: option.splits)
  from first again gone table lg sg pr show ?thesis
    by simp
qed

theorem stop_twice_witness:
  "map_of (active_forwards (snd (forward sample_runtime demo_request sid_a (Survives True)
      init_world))) sid_a \<noteq> None \<and>
   signals (snd (stop_forward sid_a (snd (forward sample_runtime demo_request sid_a
      (Survives True) init_world)))) = [(0, SIGTERM)] \<and>
   active_forwards (snd (stop_forward sid_a (snd (forward sample_runtime demo_request sid_a
      (Survives True) init_world)))) = [] \<and>
   snd (stop_forward sid_a (snd (stop_forward sid_a (snd (forward sample_runtime demo_request
      sid_a (Survives True) init_world))))) =
   snd (stop_forward sid_a (snd (forward sample_runtime demo_request sid_a (Survives True)
      init_world)))"
proof -
  let ?w = "snd (forward sample_runtime demo_request sid_a (Survives True) init_world)"
  let ?s = "\<lparr>process = Some 0, namespace = ''demo'', pod = ''web-0'', pod_port = 8080,
             local_port = 9515, started_at = 1\<rparr>"
  have af: "active_forwards ?w = [(sid_a, ?s)]"
    and pr: "procs ?w = [\<lparr>running = True, heeds_term = True, err_stream = []\<rparr>]"
    and sg: "signals ?w = []"
    by (simp_all add: forward_launched[OF demo_request_ok(1-3)] demo_request_ok
        sample_ports init_world_def)
  have m: "map_of (active_forwards ?w) sid_a = Some ?s"
    by (simp add: af)
  from stop_twice[OF m] show ?thesis
    by (simp add: af pr sg poll_none_def AList.delete_eq)
qed

subsection \<open>Local ports of concurrent sessions\<close>

lemma forward_entries:
  assumes "(k, s) \<in> set (active_forwards (snd (forward rt req sid outcome w)))"
  shows "(k, s) \<in> set (active_forwards w) \<or> (k = sid \<and> local_port s = port_of rt sid)"
proof (cases "\<exists>port heeds. read_port rt req = Inr port \<and> \<not> falsy (arg_namespace req) \<and>
    \<not> falsy (arg_pod req) \<and> outcome = Survives heeds")
  case True
  then obtain port heeds where
    ok: "read_port rt req = Inr port" "\<not> falsy (arg_namespace req)" "\<not> falsy (arg_pod req)"
    and out: "outcome = Survives heeds"
    by blast
  let ?v = "\<lparr>process = Some (length (procs w)), namespace = the (arg_namespace req),
             pod = the (arg_pod req), pod_port = port, local_port = port_of rt sid,
             started_at = clock w + 1\<rparr>"
  from assms have "(k, s) \<in> set (AList.update sid ?v (active_forwards w))"
    by (simp add: out forward_launched[OF ok])
  with set_update_subset[of sid ?v "active_forwards w"] show ?thesis
    by auto
next
  case False
  then have "active_forwards (snd (forward rt req sid outcome w)) = active_forwards w"
    by (cases outcome)
       (auto simp: forward_def Let_def start_port_forward_def split: sum.splits)
  with assms show ?thesis
    by simp
qed

lemma stop_port_forward_active:
  "active_forwards (stop_port_forward k w) = AList.delete k (active_forwards w)"
  by (auto simp: stop_port_forward_def Let_def terminate_def map_of_None_iff
      split: option.splits)

lemma timeout_handler_active:
  "active_forwards (timeout_handler k w) = AList.delete k (active_forwards w)"
  by (simp add: timeout_handler_def stop_port_forward_active)

lemma fold_timeout_handler_entries:
  "set (active_forwards (fold timeout_handler ks w)) \<subseteq> set (active_forwards w)"
proof (induction ks arbitrary: w)
  case Nil
  show ?case by simp
next
  case (Cons k ks)
  have "set (active_forwards (fold timeout_handler ks (timeout_handler k w)))
          \<subseteq> set (active_forwards (timeout_handler k w))"
    by (rule Cons.IH)
  also have "\<dots> \<subseteq> set (active_forwards w)"
    by (simp add: timeout_handler_active set_delete_subset)
  finally show ?case
    by simp
qed

lemma advance_entries: "set (active_forwards (advance t w)) \<subseteq> set (active_forwards w)"
  using fold_timeout_handler_entries[of _ "w\<lparr>clock := max (clock w) t,
    timers := filter (Not \<circ> due (max (clock w) t)) (timers w)\<rparr>"]
  by (simp add: advance_def Let_def)

lemma step_entries:
  assumes "(k, s) \<in> set (active_forwards (step rt w ev))"
  shows "(k, s) \<in> set (active_forwards w) \<or> local_port s = port_of rt k"
proof (cases ev)
  case (Ev_forward req sid outcome)
  with assms forward_entries[of k s rt req sid outcome w] show ?thesis
    by auto
next
  case (Ev_stop sid)
  with assms set_delete_subset[of sid "active_forwards w"] show ?thesis
    by (auto simp: stop_forward_def stop_port_forward_active)
next
  case Ev_status
  with assms show ?thesis
    by (simp add: status_def)
next
  case (Ev_advance t)
  with assms advance_entries[of t w] show ?thesis
    by auto
next
  case (Ev_exit h)
  with assms show ?thesis
    by (simp add: proc_exit_def split: if_splits)
qed

lemma run_snoc: "run rt w (evs @ [ev]) = step rt (run rt w evs) ev"
  by (simp add: run_def)

lemma run_Cons: "run rt w (ev # evs) = run rt (step rt w ev) evs"
  by (simp add: run_def)

lemma run_Nil: "run rt w [] = w"
  by (simp add: run_def)

lemma run_append: "run rt w (evs @ evs') = run rt (run rt w evs) evs'"
  by (simp add: run_def)

lemma run_ports:
  assumes "(k, s) \<in> set (active_forwards (run rt init_world evs))"
  shows "local_port s = port_of rt k"
  using assms
proof (induction evs arbitrary: k s rule: rev_induct)
  case Nil
  then show ?case
    by (simp add: run_Nil init_world_def)
next
  case (snoc ev evs)
  from snoc.prems step_entries[of k s rt "run rt init_world evs" ev]
  have "(k, s) \<in> set (active_forwards (run rt init_world evs)) \<or> local_port s = port_of rt k"
    by (simp add: run_snoc)
  with snoc.IH show ?case
    by blast
qed

text \<open>
  Whatever the hash function is, more than a thousand session ids cannot all get
  different ports.
\<close>

lemma port_collision_exists:
  assumes "finite S" and "1000 < card S"
  shows "\<exists>a\<in>S. \<exists>b\<in>S. a \<noteq> b \<and> port_of rt a = port_of rt b"
proof -
  have "port_of rt ` S \<subseteq> {9000..9999}"
    using port_of_range[of rt] by auto
  then have "card (port_of rt ` S) \<le> card {9000..9999::int}"
    by (intro card_mono) simp_all
  with assms(2) have "card (port_of rt ` S) < card S"
    by simp
  then have "\<not> inj_on (port_of rt) S"
    using pigeonhole by blast
  then show ?thesis
    by (auto simp: inj_on_def)
qed

text \<open>
  Claim C1, as stated: two distinct sessions that are in the table at the same time
  never have the same local port. They can: the port is computed from the session id
  alone and is not compared with the ports in use. Here two requests draw the ids
  \<open>sid_a\<close> and \<open>sid_b\<close>, whose hashes agree modulo 1000; both sessions are in the table,
  both processes are running, and both sessions have the local port 9515; they still
  have it, side by side in the table, when the second process exits later.
\<close>

theorem port_collision_counterexample:
  "sid_a \<noteq> sid_b \<and>
   session_ids (run sample_runtime init_world
      [Ev_forward demo_request sid_a (Survives True),
       Ev_forward demo_request sid_b (Survives True)]) = [sid_a, sid_b] \<and>
   map entry_active (entries (fst (fst (status (run sample_runtime init_world
      [Ev_forward demo_request sid_a (Survives True),
       Ev_forward demo_request sid_b (Survives True)]))))) = [True, True] \<and>
   held_ports (run sample_runtime init_world
      [Ev_forward demo_request sid_a (Survives True),
       Ev_forward demo_request sid_b (Survives True)]) = [9515, 9515] \<and>
   held_ports (run sample_runtime init_world
      [Ev_forward demo_request sid_a (Survives True),
       Ev_forward demo_request sid_b (Survives True), Ev_exit 1]) = [9515, 9515]"
proof -
  let ?w1 = "snd (forward sample_runtime demo_request sid_a (Survives True) init_world)"
  let ?w2 = "snd (forward sample_runtime demo_request sid_b (Survives True) ?w1)"
  have ne: "sid_a \<noteq> sid_b"
    by (simp add: sid_a_def sid_b_def)
  have r: "run sample_runtime init_world
      [Ev_forward demo_request sid_a (Survives True),
       Ev_forward demo_request sid_b (Survives True)] = ?w2"
    by (simp add: run_def)
  have af: "active_forwards ?w2 =
      [(sid_a, \<lparr>process = Some 0, namespace = ''demo'', pod = ''web-0'', pod_port = 8080,
                local_port = 9515, started_at = 1\<rparr>),
       (sid_b, \<lparr>process = Some 1, namespace = ''demo'', pod = ''web-0'', pod_port = 8080,
                local_port = 9515, started_at = 2\<rparr>)]"
    and pr: "procs ?w2 = [\<lparr>running = True, heeds_term = True, err_stream = []\<rparr>,
                          \<lparr>running = True, heeds_term = True, err_stream = []\<rparr>]"
    using ne
    by (simp_all add: forward_launched[OF demo_request_ok(1-3)] demo_request_ok sample_ports
        init_world_def)
  have r': "run sample_runtime init_world
      [Ev_forward demo_request sid_a (Survives True),
       Ev_forward demo_request sid_b (Survives True), Ev_exit 1] = proc_exit 1 ?w2"
    by (simp add: run_def)
  have af': "active_forwards (proc_exit h ?w2) = active_forwards ?w2" for h
    by (simp add: proc_exit_def)
  show ?thesis
    unfolding r r'
    by (simp add: ne af af' pr session_ids_def held_ports_def status_def status_entry_of_def
        poll_none_def)
qed

text \<open>
  Claim C1, amended: in every state the module reaches, two sessions of the table have
  the same local port exactly when the hashes of their session ids agree modulo 1000;
  so two concurrently active sessions whose ids hash to different residues modulo 1000
  have different local ports.
\<close>

theorem ports_follow_hash:
  assumes "(k1, s1) \<in> set (active_forwards (run rt init_world evs))"
    and "(k2, s2) \<in> set (active_forwards (run rt init_world evs))"
  shows "local_port s1 = local_port s2 \<longleftrightarrow>
           hash_str rt k1 mod 1000 = hash_str rt k2 mod 1000"
  using run_ports[OF assms(1)] run_ports[OF assms(2)]
  by (simp add: port_of_def)

theorem ports_follow_hash_witness:
  "held_ports (run sample_runtime init_world
      [Ev_forward demo_request sid_a (Survives True),
       Ev_forward demo_request sid_c (Survives True)]) = [9515, 9516] \<and>
   hash_str sample_runtime sid_a mod 1000 \<noteq> hash_str sample_runtime sid_c mod 1000"
proof -
  let ?w1 = "snd (forward sample_runtime demo_request sid_a (Survives True) init_world)"
  let ?w2 = "snd (forward sample_runtime demo_request sid_c (Survives True) ?w1)"
  let ?sa = "\<lparr>process = Some 0, namespace = ''demo'', pod = ''web-0'', pod_port = 8080,
              local_port = 9515, started_at = 1\<rparr>"
  let ?sc = "\<lparr>process = Some 1, namespace = ''demo'', pod = ''web-0'', pod_port = 8080,
              local_port = 9516, started_at = 2\<rparr>"
  have ne: "sid_a \<noteq> sid_c"
    by (simp add: sid_a_def sid_c_def)
  have r: "run sample_runtime init_world
      [Ev_forward demo_request sid_a (Survives True),
       Ev_forward demo_request sid_c (Survives True)] = ?w2"
    by (simp add: run_def)
  have af: "active_forwards ?w2 = [(sid_a, ?sa), (sid_c, ?sc)]"
    using ne
    by (simp add: forward_launched[OF demo_request_ok(1-3)] demo_request_ok sample_ports
        init_world_def)
  have a: "(sid_a, ?sa) \<in> set (active_forwards (run sample_runtime init_world
      [Ev_forward demo_request sid_a (Survives True),
       Ev_forward demo_request sid_c (Survives True)]))"
    and c: "(sid_c, ?sc) \<in> set (active_forwards (run sample_runtime init_world
      [Ev_forward demo_request sid_a (Survives True),
       Ev_forward demo_request sid_c (Survives True)]))"
    unfolding r by (simp_all add: af)
  from ports_follow_hash[OF a c] show ?thesis
    unfolding r by (simp add: af held_ports_def)
qed

subsection \<open>Expiry\<close>

lemma core_frame [simp]:
  "session_live sid h c (w\<lparr>clock := x\<rparr>) = session_live sid h c w"
  "session_live sid h c (w\<lparr>timers := y\<rparr>) = session_live sid h c w"
  "session_gone sid h c (w\<lparr>clock := x\<rparr>) = session_gone sid h c w"
  "session_gone sid h c (w\<lparr>timers := y\<rparr>) = session_gone sid h c w"
  by (simp_all add: session_live_def session_gone_def expiries_def)

lemma stop_port_forward_frame [simp]:
  "timers (stop_port_forward k w) = timers w"
  "clock (stop_port_forward k w) = clock w"
  "length (procs (stop_port_forward k w)) = length (procs w)"
  "expiries sid (stop_port_forward k w) = expiries sid w"
  by (auto simp: stop_port_forward_def Let_def terminate_def expiries_def split: option.splits)

lemma stop_port_forward_stays_dead:
  assumes "h < length (procs w)" and "\<not> running (procs w ! h)"
  shows "\<not> running (procs (stop_port_forward k w) ! h)"
  using assms
  by (auto simp: stop_port_forward_def Let_def terminate_def nth_list_update poll_none_def
      split: option.splits)

lemma stop_port_forward_ends_process:
  assumes "map_option process (map_of (active_forwards w) sid) = Some (Some h)"
    and "h < length (procs w)"
  shows "\<not> running (procs (stop_port_forward sid w) ! h)"
  using assms
  by (auto simp: stop_port_forward_def Let_def terminate_def poll_none_def split: option.splits)

lemma stop_port_forward_other:
  assumes "k \<noteq> sid"
  shows "map_of (active_forwards (stop_port_forward k w)) sid = map_of (active_forwards w) sid"
  using assms by (simp add: stop_port_forward_active)

lemma stop_port_forward_self:
  "map_of (active_forwards (stop_port_forward sid w)) sid = None"
  by (simp add: stop_port_forward_active AList.delete_conv')

lemma timeout_handler_frame [simp]:
  "timers (timeout_handler k w) = timers w"
  "clock (timeout_handler k w) = clock w"
  "length (procs (timeout_handler k w)) = length (procs w)"
  by (simp_all add: timeout_handler_def)

lemma timeout_handler_expiries:
  "expiries sid (timeout_handler k w) = (if k = sid then Suc (expiries sid w) else expiries sid w)"
proof -
  have "expiries sid (timeout_handler k w) =
      expiries sid (stop_port_forward k w) + (if k = sid then 1 else 0)"
    by (simp add: timeout_handler_def expiries_def)
  then show ?thesis
    by simp
qed

lemma timeout_handler_live:
  assumes "k \<noteq> sid" and "session_live sid h c w"
  shows "session_live sid h c (timeout_handler k w)"
  using assms
  by (simp add: session_live_def timeout_handler_expiries timeout_handler_active)

lemma timeout_handler_gone:
  assumes "k \<noteq> sid" and "session_gone sid h c w"
  shows "session_gone sid h c (timeout_handler k w)"
  using assms stop_port_forward_stays_dead[of h w k]
  by (simp add: session_gone_def timeout_handler_expiries timeout_handler_active)
     (simp add: timeout_handler_def)

lemma timeout_handler_fires:
  assumes "session_live sid h c w"
  shows "session_gone sid h c (timeout_handler sid w)"
  using assms stop_port_forward_ends_process[of w sid h]
  by (simp add: session_live_def session_gone_def timeout_handler_expiries
      timeout_handler_active AList.delete_conv')
     (simp add: timeout_handler_def)

lemma fold_timeout_handler_timers [simp]:
  "timers (fold timeout_handler ks w) = timers w"
  by (induction ks arbitrary: w) simp_all

lemma fold_timeout_handler_live:
  assumes "sid \<notin> set ks" and "session_live sid h c w"
  shows "session_live sid h c (fold timeout_handler ks w)"
  using assms by (induction ks arbitrary: w) (auto simp: timeout_handler_live)

lemma fold_timeout_handler_gone:
  assumes "sid \<notin> set ks" and "session_gone sid h c w"
  shows "session_gone sid h c (fold timeout_handler ks w)"
  using assms by (induction ks arbitrary: w) (auto simp: timeout_handler_gone)

lemma fold_timeout_handler_fires:
  assumes "count_list ks sid = 1" and "session_live sid h c w"
  shows "session_gone sid h c (fold timeout_handler ks w)"
  using assms
proof (induction ks arbitrary: w)
  case Nil
  then show ?case by simp
next
  case (Cons k ks)
  show ?case
  proof (cases "k = sid")
    case True
    with Cons.prems(1) have "sid \<notin> set ks"
      by (simp add: count_list_0_iff)
    moreover have "session_gone sid h c (timeout_handler sid w)"
      by (rule timeout_handler_fires[OF Cons.prems(2)])
    ultimately show ?thesis
      using True by (simp add: fold_timeout_handler_gone)
  next
    case False
    with Cons.prems have "count_list ks sid = 1" "session_live sid h c (timeout_handler k w)"
      by (simp_all add: timeout_handler_live)
    then show ?thesis
      using Cons.IH by simp
  qed
qed

lemma count_list_map_fst:
  "count_list (map fst xs) k = length (filter (\<lambda>p. fst p = k) xs)"
  by (induction xs) auto

lemma due_ids_count:
  "count_list (map fst (filter (due c) (timers w))) sid = length (filter (due c) (sleeping sid w))"
proof -
  have "filter (\<lambda>p. fst p = sid) (filter (due c) (timers w)) =
        filter (due c) (filter (\<lambda>p. fst p = sid) (timers w))"
    by (simp add: conj_commute)
  then show ?thesis
    by (simp add: count_list_map_fst sleeping_def)
qed

lemma sleeping_advance:
  "sleeping sid (advance t w) = filter (Not \<circ> due (max (clock w) t)) (sleeping sid w)"
proof -
  have "filter (\<lambda>p. fst p = sid) (filter (Not \<circ> due (max (clock w) t)) (timers w)) =
        filter (Not \<circ> due (max (clock w) t)) (filter (\<lambda>p. fst p = sid) (timers w))"
    by (simp add: conj_commute)
  then show ?thesis
    by (simp add: sleeping_def advance_def Let_def)
qed

lemma advance_fires:
  assumes "session_live sid h c w" and "sleeping sid w = [(sid, d)]" and "d \<le> t"
  shows "session_gone sid h c (advance t w) \<and> sleeping sid (advance t w) = []"
proof -
  let ?c = "max (clock w) t"
  from assms(3) have d: "due ?c (sid, d)"
    by (simp add: due_def)
  with assms(2) have "count_list (map fst (filter (due ?c) (timers w))) sid = 1"
    by (simp add: due_ids_count)
  then have "session_gone sid h c (advance t w)"
    using assms(1) by (simp add: advance_def Let_def fold_timeout_handler_fires)
  moreover have "sleeping sid (advance t w) = []"
    using assms(2) d by (simp add: sleeping_advance)
  ultimately show ?thesis
    by simp
qed

lemma advance_waits:
  assumes "session_live sid h c w" and "sleeping sid w = [(sid, d)]" and "\<not> d \<le> max (clock w) t"
  shows "session_live sid h c (advance t w) \<and> sleeping sid (advance t w) = [(sid, d)]"
proof -
  let ?c = "max (clock w) t"
  from assms(3) have d: "\<not> due ?c (sid, d)"
    by (simp add: due_def)
  with assms(2) have "count_list (map fst (filter (due ?c) (timers w))) sid = 0"
    by (simp add: due_ids_count)
  then have "sid \<notin> set (map fst (filter (due ?c) (timers w)))"
    by (simp add: count_list_0_iff)
  then have "session_live sid h c (advance t w)"
    using assms(1) by (simp add: advance_def Let_def fold_timeout_handler_live)
  moreover have "sleeping sid (advance t w) = [(sid, d)]"
    using assms(2) d by (simp add: sleeping_advance)
  ultimately show ?thesis
    by simp
qed

lemma advance_gone:
  assumes "session_gone sid h c w" and "sleeping sid w = []"
  shows "session_gone sid h c (advance t w) \<and> sleeping sid (advance t w) = []"
proof -
  let ?c = "max (clock w) t"
  from assms(2) have "count_list (map fst (filter (due ?c) (timers w))) sid = 0"
    by (simp add: due_ids_count)
  then have "sid \<notin> set (map fst (filter (due ?c) (timers w)))"
    by (simp add: count_list_0_iff)
  then have "session_gone sid h c (advance t w)"
    using assms(1) by (simp add: advance_def Let_def fold_timeout_handler_gone)
  moreover have "sleeping sid (advance t w) = []"
    using assms(2) by (simp add: sleeping_advance)
  ultimately show ?thesis
    by simp
qed

lemma forward_other:
  assumes "k \<noteq> sid"
  shows "map_of (active_forwards (snd (forward rt req k outcome w))) sid =
           map_of (active_forwards w) sid"
    and "sleeping sid (snd (forward rt req k outcome w)) = sleeping sid w"
  using assms
  by (cases outcome;
      auto simp: forward_def Let_def start_port_forward_def spawn_timeout_def sleeping_def
        AList.update_conv' split: sum.splits)+

lemma forward_expiries:
  "expiries sid (snd (forward rt req k outcome w)) = expiries sid w"
  by (cases outcome;
      auto simp: forward_def Let_def start_port_forward_def spawn_timeout_def expiries_def
        split: sum.splits)

lemma forward_procs:
  "\<exists>ps. procs (snd (forward rt req k outcome w)) = procs w @ ps"
  by (cases outcome;
      auto simp: forward_def Let_def start_port_forward_def spawn_timeout_def
        split: sum.splits)

lemma forward_live:
  assumes "k \<noteq> sid" and "session_live sid h c w"
  shows "session_live sid h c (snd (forward rt req k outcome w))"
proof -
  obtain ps where "procs (snd (forward rt req k outcome w)) = procs w @ ps"
    using forward_procs by blast
  with assms show ?thesis
    by (simp add: session_live_def forward_other forward_expiries)
qed

lemma forward_gone:
  assumes "k \<noteq> sid" and "session_gone sid h c w"
  shows "session_gone sid h c (snd (forward rt req k outcome w))"
proof -
  obtain ps where "procs (snd (forward rt req k outcome w)) = procs w @ ps"
    using forward_procs by blast
  with assms show ?thesis
    by (simp add: session_gone_def forward_other forward_expiries nth_append)
qed

lemma stop_live:
  assumes "k \<noteq> sid" and "session_live sid h c w"
  shows "session_live sid h c (stop_port_forward k w)"
  using assms by (simp add: session_live_def stop_port_forward_other)

lemma stop_gone:
  assumes "session_gone sid h c w"
  shows "session_gone sid h c (stop_port_forward k w)"
  using assms stop_port_forward_stays_dead[of h w k]
  by (simp add: session_gone_def stop_port_forward_active AList.delete_conv')

lemma proc_exit_live:
  assumes "session_live sid h c w"
  shows "session_live sid h c (proc_exit h' w)"
  using assms by (simp add: session_live_def proc_exit_def expiries_def)

lemma proc_exit_gone:
  assumes "session_gone sid h c w"
  shows "session_gone sid h c (proc_exit h' w)"
  using assms by (simp add: session_gone_def proc_exit_def expiries_def nth_list_update)

lemma sleeping_frame [simp]:
  "sleeping sid (stop_port_forward k w) = sleeping sid w"
  "sleeping sid (proc_exit h w) = sleeping sid w"
  by (simp_all add: sleeping_def proc_exit_def)

lemma step_gone:
  assumes "session_gone sid h c w \<and> sleeping sid w = []" and "foreign sid ev"
  shows "session_gone sid h c (step rt w ev) \<and> sleeping sid (step rt w ev) = []"
proof (cases ev)
  case (Ev_forward req k outcome)
  with assms show ?thesis
    by (simp add: forward_gone forward_other)
next
  case (Ev_stop k)
  with assms show ?thesis
    by (simp add: stop_forward_def stop_gone)
next
  case Ev_status
  with assms show ?thesis
    by (simp add: status_def)
next
  case (Ev_advance t)
  with assms advance_gone[of sid h c w t] show ?thesis
    by simp
next
  case (Ev_exit h')
  with assms show ?thesis
    by (simp add: proc_exit_gone)
qed

lemma step_live:
  assumes "session_live sid h c w \<and> sleeping sid w = [(sid, d)]" and "foreign sid ev"
  shows "session_live sid h c (step rt w ev) \<and> sleeping sid (step rt w ev) = [(sid, d)] \<or>
         session_gone sid h c (step rt w ev) \<and> sleeping sid (step rt w ev) = []"
proof (cases ev)
  case (Ev_forward req k outcome)
  with assms show ?thesis
    by (simp add: forward_live forward_other)
next
  case (Ev_stop k)
  with assms show ?thesis
    by (simp add: stop_forward_def stop_live)
next
  case Ev_status
  with assms show ?thesis
    by (simp add: status_def)
next
  case (Ev_advance t)
  show ?thesis
  proof (cases "d \<le> max (clock w) t")
    case True
    have "advance t w = advance (max (clock w) t) w"
      by (simp add: advance_def)
    with assms advance_fires[of sid h c w d "max (clock w) t"] True Ev_advance show ?thesis
      by simp
  next
    case False
    with assms advance_waits[of sid h c w d t] Ev_advance show ?thesis
      by simp
  qed
next
  case (Ev_exit h')
  with assms show ?thesis
    by (simp add: proc_exit_live)
qed

lemma run_gone:
  assumes "session_gone sid h c w \<and> sleeping sid w = []" and "\<forall>ev\<in>set evs. foreign sid ev"
  shows "session_gone sid h c (run rt w evs) \<and> sleeping sid (run rt w evs) = []"
  using assms
proof (induction evs arbitrary: w)
  case Nil
  then show ?case by (simp add: run_Nil)
next
  case (Cons ev evs)
  from Cons.prems have "session_gone sid h c (step rt w ev) \<and> sleeping sid (step rt w ev) = []"
    by (intro step_gone) simp_all
  with Cons.IH Cons.prems(2) show ?case
    by (simp add: run_Cons)
qed

lemma run_live:
  assumes "session_live sid h c w \<and> sleeping sid w = [(sid, d)]"
    and "\<forall>ev\<in>set evs. foreign sid ev"
  shows "session_live sid h c (run rt w evs) \<and> sleeping sid (run rt w evs) = [(sid, d)] \<or>
         session_gone sid h c (run rt w evs) \<and> sleeping sid (run rt w evs) = []"
  using assms
proof (induction evs arbitrary: w)
  case Nil
  then show ?case by (simp add: run_Nil)
next
  case (Cons ev evs)
  from Cons.prems have f: "foreign sid ev" and fs: "\<forall>ev\<in>set evs. foreign sid ev"
    by simp_all
  from step_live[OF Cons.prems(1) f, of rt]
  show ?case
  proof
    assume "session_live sid h c (step rt w ev) \<and> sleeping sid (step rt w ev) = [(sid, d)]"
    from Cons.IH[OF this fs] show ?thesis
      by (simp add: run_Cons)
  next
    assume "session_gone sid h c (step rt w ev) \<and> sleeping sid (step rt w ev) = []"
    from run_gone[OF this fs, of rt] show ?thesis
      by (simp add: run_Cons)
  qed
qed

lemma fold_timeout_handler_clock [simp]:
  "clock (fold timeout_handler ks w) = clock w"
  by (induction ks arbitrary: w) simp_all

lemma clock_advance: "clock (advance t w) = max (clock w) t"
  by (simp add: advance_def Let_def)

lemma clock_forward: "clock w \<le> clock (snd (forward rt req k outcome w))"
  by (cases outcome;
      auto simp: forward_def Let_def start_port_forward_def spawn_timeout_def
        split: sum.splits)

lemma clock_step: "clock w \<le> clock (step rt w ev)"
  by (cases ev) (simp_all add: clock_forward stop_forward_def status_def clock_advance
      proc_exit_def)

lemma clock_run: "clock w \<le> clock (run rt w evs)"
proof (induction evs arbitrary: w)
  case Nil
  show ?case by (simp add: run_Nil)
next
  case (Cons ev evs)
  have "clock w \<le> clock (step rt w ev)"
    by (rule clock_step)
  also have "\<dots> \<le> clock (run rt (step rt w ev) evs)"
    by (rule Cons.IH)
  finally show ?case
    by (simp add: run_Cons)
qed

text \<open>While the clock is before the wake-up time of its thread, the session stays.\<close>

lemma step_live_early:
  assumes "session_live sid h c w \<and> sleeping sid w = [(sid, d)]" and "foreign sid ev"
    and "clock (step rt w ev) < d"
  shows "session_live sid h c (step rt w ev) \<and> sleeping sid (step rt w ev) = [(sid, d)]"
proof (cases ev)
  case (Ev_forward req k outcome)
  with assms show ?thesis
    by (simp add: forward_live forward_other)
next
  case (Ev_stop k)
  with assms show ?thesis
    by (simp add: stop_forward_def stop_live)
next
  case Ev_status
  with assms show ?thesis
    by (simp add: status_def)
next
  case (Ev_advance t)
  with assms(3) have "\<not> d \<le> max (clock w) t"
    by (auto simp: clock_advance max_def)
  with assms(1) advance_waits[of sid h c w d t] Ev_advance show ?thesis
    by simp
next
  case (Ev_exit h')
  with assms show ?thesis
    by (simp add: proc_exit_live)
qed

lemma run_live_early:
  assumes "session_live sid h c w \<and> sleeping sid w = [(sid, d)]"
    and "\<forall>ev\<in>set evs. foreign sid ev" and "clock (run rt w evs) < d"
  shows "session_live sid h c (run rt w evs) \<and> sleeping sid (run rt w evs) = [(sid, d)]"
  using assms
proof (induction evs arbitrary: w)
  case Nil
  then show ?case by (simp add: run_Nil)
next
  case (Cons ev evs)
  from Cons.prems have f: "foreign sid ev" and fs: "\<forall>ev\<in>set evs. foreign sid ev"
    and late: "clock (run rt (step rt w ev) evs) < d"
    by (simp_all add: run_Cons)
  have "clock (step rt w ev) \<le> clock (run rt (step rt w ev) evs)"
    by (rule clock_run)
  with late have "clock (step rt w ev) < d"
    by simp
  from step_live_early[OF Cons.prems(1) f this]
  have "session_live sid h c (step rt w ev) \<and> sleeping sid (step rt w ev) = [(sid, d)]" .
  from Cons.IH[OF this fs late] show ?case
    by (simp add: run_Cons)
qed

text \<open>A session for which no thread is asleep is never expired.\<close>

lemma advance_idle:
  assumes "session_live sid h c w" and "sleeping sid w = []"
  shows "session_live sid h c (advance t w) \<and> sleeping sid (advance t w) = []"
proof -
  let ?c = "max (clock w) t"
  from assms(2) have "count_list (map fst (filter (due ?c) (timers w))) sid = 0"
    by (simp add: due_ids_count)
  then have "sid \<notin> set (map fst (filter (due ?c) (timers w)))"
    by (simp add: count_list_0_iff)
  then have "session_live sid h c (advance t w)"
    using assms(1) by (simp add: advance_def Let_def fold_timeout_handler_live)
  moreover have "sleeping sid (advance t w) = []"
    using assms(2) by (simp add: sleeping_advance)
  ultimately show ?thesis
    by simp
qed

lemma step_idle:
  assumes "session_live sid h c w \<and> sleeping sid w = []" and "foreign sid ev"
  shows "session_live sid h c (step rt w ev) \<and> sleeping sid (step rt w ev) = []"
proof (cases ev)
  case (Ev_forward req k outcome)
  with assms show ?thesis
    by (simp add: forward_live forward_other)
next
  case (Ev_stop k)
  with assms show ?thesis
    by (simp add: stop_forward_def stop_live)
next
  case Ev_status
  with assms show ?thesis
    by (simp add: status_def)
next
  case (Ev_advance t)
  with assms advance_idle[of sid h c w t] show ?thesis
    by simp
next
  case (Ev_exit h')
  with assms show ?thesis
    by (simp add: proc_exit_live)
qed

lemma run_idle:
  assumes "session_live sid h c w \<and> sleeping sid w = []" and "\<forall>ev\<in>set evs. foreign sid ev"
  shows "session_live sid h c (run rt w evs) \<and> sleeping sid (run rt w evs) = []"
  using assms
proof (induction evs arbitrary: w)
  case Nil
  then show ?case by (simp add: run_Nil)
next
  case (Cons ev evs)
  from Cons.prems have "session_live sid h c (step rt w ev) \<and> sleeping sid (step rt w ev) = []"
    by (intro step_idle) simp_all
  with Cons.IH Cons.prems(2) show ?case
    by (simp add: run_Cons)
qed

lemma session_live_listed:
  assumes "session_live sid h c w"
  shows "sid \<in> set (session_ids w)"
proof -
  from assms have "map_of (active_forwards w) sid \<noteq> None"
    by (auto simp: session_live_def)
  then show ?thesis
    by (simp add: map_of_None_iff session_ids_def)
qed

lemma started_session_live:
  assumes "forward rt req sid outcome w = ((b, 200), w1)" and "sleeping sid w = []"
  shows "session_live sid (length (procs w)) (expiries sid w) w1 \<and>
         sleeping sid w1 =
           (if sleep_raises rt (forward_timeout rt) then []
            else [(sid, clock w1 + forward_timeout rt)])"
proof -
  from forward_200D[OF assms(1)] obtain port heeds where
    ok: "read_port rt req = Inr port" "\<not> falsy (arg_namespace req)" "\<not> falsy (arg_pod req)"
    and out: "outcome = Survives heeds"
    by blast
  from assms(1) have w1: "w1 = snd (forward rt req sid (Survives heeds) w)"
    by (simp add: out)
  have "expiries sid w1 = expiries sid w"
    by (simp add: w1 forward_expiries)
  moreover have "sleeping sid w1 =
           (if sleep_raises rt (forward_timeout rt) then []
            else [(sid, clock w1 + forward_timeout rt)])"
    using assms(2) by (simp add: w1 sleeping_def forward_launched[OF ok])
  ultimately show ?thesis
    by (simp add: session_live_def w1 forward_launched[OF ok] AList.update_conv')
qed

text \<open>
  When \<open>time.sleep\<close> raises on the configured lifetime, a started session that nobody
  stops stays in the table whatever else happens and however far the clock moves.
\<close>

lemma unslept_session_stays:
  assumes "forward rt req sid outcome w = ((b, 200), w1)"
    and "sleep_raises rt (forward_timeout rt)"
    and "sleeping sid w = []"
    and "\<forall>ev\<in>set evs. foreign sid ev"
  shows "sid \<in> set (session_ids (run rt w1 evs)) \<and>
         expiries sid (run rt w1 evs) = expiries sid w"
proof -
  from started_session_live[OF assms(1,3)] assms(2)
  have "session_live sid (length (procs w)) (expiries sid w) w1 \<and> sleeping sid w1 = []"
    by simp
  from run_idle[OF this assms(4), of rt]
  have l: "session_live sid (length (procs w)) (expiries sid w) (run rt w1 evs)"
    by simp
  from session_live_listed[OF l] l show ?thesis
    by (simp add: session_live_def)
qed

text \<open>
  Claim C7, as stated: every session that is started and not stopped by hand is
  expired once its configured maximum lifetime has elapsed. Not for every configured
  lifetime: \<open>FORWARD_TIMEOUT\<close> is read from the environment as any integer, and on a
  negative one \<open>time.sleep\<close> raises in the new thread, which ends before it calls
  \<open>stop_port_forward\<close>. Here the lifetime is \<open>-1\<close>; the session is started at clock 1,
  and with the clock at 100000 it is still in the table, its process still runs and no
  expiry has been logged.
\<close>

theorem expiry_negative_lifetime_counterexample:
  "forward_timeout (sample_runtime\<lparr>forward_timeout := - 1\<rparr>) = - 1 \<and>
   snd (fst (forward (sample_runtime\<lparr>forward_timeout := - 1\<rparr>) demo_request sid_a
               (Survives True) init_world)) = 200 \<and>
   clock (snd (forward (sample_runtime\<lparr>forward_timeout := - 1\<rparr>) demo_request sid_a
               (Survives True) init_world)) = 1 \<and>
   clock (run (sample_runtime\<lparr>forward_timeout := - 1\<rparr>)
            (snd (forward (sample_runtime\<lparr>forward_timeout := - 1\<rparr>) demo_request sid_a
                    (Survives True) init_world))
            [Ev_advance 10, Ev_status, Ev_advance 100000]) = 100000 \<and>
   session_ids (run (sample_runtime\<lparr>forward_timeout := - 1\<rparr>)
            (snd (forward (sample_runtime\<lparr>forward_timeout := - 1\<rparr>) demo_request sid_a
                    (Survives True) init_world))
            [Ev_advance 10, Ev_status, Ev_advance 100000]) = [sid_a] \<and>
   poll_none (run (sample_runtime\<lparr>forward_timeout := - 1\<rparr>)
            (snd (forward (sample_runtime\<lparr>forward_timeout := - 1\<rparr>) demo_request sid_a
                    (Survives True) init_world))
            [Ev_advance 10, Ev_status, Ev_advance 100000]) 0 \<and>
   expiries sid_a (run (sample_runtime\<lparr>forward_timeout := - 1\<rparr>)
            (snd (forward (sample_runtime\<lparr>forward_timeout := - 1\<rparr>) demo_request sid_a
                    (Survives True) init_world))
            [Ev_advance 10, Ev_status, Ev_advance 100000]) = 0"
proof -
  let ?rt = "sample_runtime\<lparr>forward_timeout := - 1\<rparr>"
  let ?w1 = "snd (forward ?rt demo_request sid_a (Survives True) init_world)"
  have ok: "read_port ?rt demo_request = Inr 8080"
    by (simp add: read_port_def demo_request_def)
  have raises: "sleep_raises ?rt (forward_timeout ?rt)"
    by (simp add: sleep_raises_def)
  have p: "port_of ?rt sid_a = 9515"
    using sample_ports(1) by (simp add: port_of_def)
  have c: "snd (fst (forward ?rt demo_request sid_a (Survives True) init_world)) = 200"
    by (simp add: forward_launched[OF ok demo_request_ok(2,3)])
  have w1: "active_forwards ?w1 =
      [(sid_a, \<lparr>process = Some 0, namespace = ''demo'', pod = ''web-0'', pod_port = 8080,
                local_port = 9515, started_at = 1\<rparr>)]"
    "procs ?w1 = [\<lparr>running = True, heeds_term = True, err_stream = []\<rparr>]"
    "timers ?w1 = []" "clock ?w1 = 1"
    "logged ?w1 = [Info_backend_started, Warn_no_auth,
       Info_starting ''demo'' ''web-0'' 8080 9515, Info_started ''web-0'' 8080 9515]"
    using raises
    by (simp_all add: forward_launched[OF ok demo_request_ok(2,3)] demo_request_ok(4,5) p
        init_world_def)
       (simp_all add: demo_request_def falsy_def)
  have adv: "advance t w = w\<lparr>clock := max (clock w) t\<rparr>" if "timers w = []" for t w
    using that by (simp add: advance_def Let_def)
  have r: "run ?rt ?w1 [Ev_advance 10, Ev_status, Ev_advance 100000] = ?w1\<lparr>clock := 100000\<rparr>"
    by (simp add: run_def status_def adv w1)
  show ?thesis
    unfolding r
    by (simp add: c w1 session_ids_def poll_none_def expiries_def)
qed

text \<open>
  Claim C7, amended. Take a session that was started (a \<open>forward\<close> call answered with
  status 200, under an id for which no thread was asleep) with a configured lifetime
  that \<open>time.sleep\<close> accepts (not negative and not beyond the longest sleep of the
  platform), and let any events follow that neither stop this session nor start
  another one under its id. While the clock is before the start time plus the
  lifetime, the session is in the table, no expiry of it has run and its thread is
  asleep. Once the clock has been moved to the start time plus the lifetime or beyond,
  the expiry of the session has run exactly once, the session is not in the table, the
  listing returned by \<open>status\<close> has no entry for its id, its process is not running and
  no thread is asleep for it any more; and this stays so.
\<close>

theorem expiry_fires_once:
  assumes "forward rt req sid outcome w = ((b, 200), w1)"
    and "\<not> sleep_raises rt (forward_timeout rt)"
    and "sleeping sid w = []"
    and "\<forall>ev\<in>set (evs1 @ evs2). foreign sid ev"
    and "clock w1 + forward_timeout rt \<le> t"
  shows "(clock (run rt w1 evs1) < clock w1 + forward_timeout rt \<longrightarrow>
            sid \<in> set (session_ids (run rt w1 evs1)) \<and>
            expiries sid (run rt w1 evs1) = expiries sid w \<and>
            sleeping sid (run rt w1 evs1) = [(sid, clock w1 + forward_timeout rt)]) \<and>
         sid \<notin> set (session_ids (run rt w1 (evs1 @ [Ev_advance t] @ evs2))) \<and>
         sid \<notin> entry_session_id `
           set (entries (fst (fst (status (run rt w1 (evs1 @ [Ev_advance t] @ evs2)))))) \<and>
         expiries sid (run rt w1 (evs1 @ [Ev_advance t] @ evs2)) = expiries sid w + 1 \<and>
         sleeping sid (run rt w1 (evs1 @ [Ev_advance t] @ evs2)) = [] \<and>
         \<not> poll_none (run rt w1 (evs1 @ [Ev_advance t] @ evs2)) (length (procs w))"
proof -
  let ?h = "length (procs w)" and ?c = "expiries sid w"
  let ?d = "clock w1 + forward_timeout rt"
  let ?wa = "run rt w1 evs1"
  let ?wb = "advance t ?wa"
  let ?wc = "run rt w1 (evs1 @ [Ev_advance t] @ evs2)"
  from assms(4) have f1: "\<forall>ev\<in>set evs1. foreign sid ev" and f2: "\<forall>ev\<in>set evs2. foreign sid ev"
    by simp_all
  have live: "session_live sid ?h ?c w1 \<and> sleeping sid w1 = [(sid, ?d)]"
    using started_session_live[OF assms(1,3)] assms(2) by simp
  have early: "sid \<in> set (session_ids ?wa) \<and> expiries sid ?wa = ?c \<and>
      sleeping sid ?wa = [(sid, ?d)]" if "clock ?wa < ?d"
  proof -
    from run_live_early[OF live f1 that]
    have l: "session_live sid ?h ?c ?wa" and z: "sleeping sid ?wa = [(sid, ?d)]"
      by simp_all
    from session_live_listed[OF l] l z show ?thesis
      by (simp add: session_live_def)
  qed
  have "session_gone sid ?h ?c ?wb \<and> sleeping sid ?wb = []"
    using run_live[OF live f1, of rt]
  proof
    assume "session_live sid ?h ?c ?wa \<and> sleeping sid ?wa = [(sid, ?d)]"
    then show ?thesis
      using advance_fires[of sid ?h ?c ?wa ?d t] assms(5) by simp
  next
    assume "session_gone sid ?h ?c ?wa \<and> sleeping sid ?wa = []"
    then show ?thesis
      using advance_gone[of sid ?h ?c ?wa t] by simp
  qed
  from run_gone[OF this f2, of rt] have gone: "session_gone sid ?h ?c ?wc"
    and asleep: "sleeping sid ?wc = []"
    by (simp_all add: run_append run_Cons)
  from gone have "sid \<notin> fst ` set (active_forwards ?wc)"
    by (simp add: session_gone_def map_of_None_iff)
  moreover have "entry_session_id ` set (entries (fst (fst (status ?wc)))) =
      fst ` set (active_forwards ?wc)"
    by (simp add: status_def status_entry_of_def image_image)
  ultimately show ?thesis
    using gone asleep early by (simp add: session_gone_def session_ids_def poll_none_def)
qed

theorem expiry_fires_once_witness:
  "snd (fst (forward sample_runtime demo_request sid_a (Survives True) init_world)) = 200 \<and>
   clock (snd (forward sample_runtime demo_request sid_a (Survives True) init_world)) +
     forward_timeout sample_runtime = 3601 \<and>
   clock (run sample_runtime
      (snd (forward sample_runtime demo_request sid_a (Survives True) init_world))
      [Ev_forward demo_request sid_b (Survives False), Ev_advance 3600]) = 3600 \<and>
   sid_a \<in> set (session_ids (run sample_runtime
      (snd (forward sample_runtime demo_request sid_a (Survives True) init_world))
      [Ev_forward demo_request sid_b (Survives False), Ev_advance 3600])) \<and>
   expiries sid_a (run sample_runtime
      (snd (forward sample_runtime demo_request sid_a (Survives True) init_world))
      [Ev_forward demo_request sid_b (Survives False), Ev_advance 3600]) = 0 \<and>
   sid_a \<notin> set (session_ids (run sample_runtime
      (snd (forward sample_runtime demo_request sid_a (Survives True) init_world))
      ([Ev_forward demo_request sid_b (Survives False), Ev_advance 3600] @ [Ev_advance 3601] @
       [Ev_status]))) \<and>
   expiries sid_a (run sample_runtime
      (snd (forward sample_runtime demo_request sid_a (Survives True) init_world))
      ([Ev_forward demo_request sid_b (Survives False), Ev_advance 3600] @ [Ev_advance 3601] @
       [Ev_status])) = 1 \<and>
   \<not> poll_none (run sample_runtime
      (snd (forward sample_runtime demo_request sid_a (Survives True) init_world))
      ([Ev_forward demo_request sid_b (Survives False), Ev_advance 3600] @ [Ev_advance 3601] @
       [Ev_status])) 0"
proof -
  let ?r = "forward sample_runtime demo_request sid_a (Survives True) init_world"
  let ?evs1 = "[Ev_forward demo_request sid_b (Survives False), Ev_advance 3600]"
  let ?evs2 = "[Ev_status]"
  have c: "snd (fst ?r) = 200"
    by (simp add: forward_launched[OF demo_request_ok(1-3)])
  then have r: "?r = ((fst (fst ?r), 200), snd ?r)"
    by (metis prod.collapse)
  have T: "\<not> sleep_raises sample_runtime (forward_timeout sample_runtime)"
    by (simp add: sleep_raises_def sample_runtime_def)
  have s: "sleeping sid_a init_world = []"
    by (simp add: sleeping_def init_world_def)
  have f: "\<forall>ev\<in>set (?evs1 @ ?evs2). foreign sid_a ev"
    by (simp add: sid_a_def sid_b_def)
  have k: "clock (snd ?r) = 1"
    by (simp add: forward_launched[OF demo_request_ok(1-3)]) (simp add: init_world_def)
  then have d: "clock (snd ?r) + forward_timeout sample_runtime = 3601"
    by (simp add: sample_runtime_def)
  then have t: "clock (snd ?r) + forward_timeout sample_runtime \<le> 3601"
    by simp
  have k1: "clock (run sample_runtime (snd ?r) ?evs1) = 3600"
    by (simp add: run_def clock_advance forward_launched[OF demo_request_ok(1-3)] k)
       (simp add: init_world_def)
  have e: "expiries sid_a init_world = 0"
    by (simp add: expiries_def init_world_def)
  have l: "length (procs init_world) = 0"
    by (simp add: init_world_def)
  from expiry_fires_once[OF r T s f t] c d k1 show ?thesis
    by (simp only: e l) simp
qed

end
